theory Spec2Isabelle
  imports Main "HOL-Library.Char_ord" "HOL-Library.List_Lexorder" "HOL-Library.Code_Target_Nat"
begin

section \<open>Text and characters\<close>

text \<open>
  The program is \<^verbatim>\<open>src/mri_aggregator_app.py\<close>. Document text is a Python \<^verbatim>\<open>str\<close>; it is
  modelled as a \<^typ>\<open>string\<close> whose characters are the code points U+0000 to U+00FF, so
  that the non-breaking space U+00A0 is \<open>CHR 0xA0\<close>. Text with code points above U+00FF is
  outside the model. On this range the character classes below are the ones of Python 3:
  \<^verbatim>\<open>str.isspace\<close> (used by \<^verbatim>\<open>str.strip\<close> and by \<^verbatim>\<open>\s\<close>), \<^verbatim>\<open>\d\<close>, \<^verbatim>\<open>\w\<close> and \<^verbatim>\<open>str.lower\<close>.
  On this range \<^verbatim>\<open>str.lower\<close> gives one code point for each code point, so that a text
  and its lower-cased copy have the same length. Above it that is not so: U+0130 is
  lower-cased to the two code points U+0069 U+0307. A text with U+0130 is therefore not
  only outside the model: \<^verbatim>\<open>extract_section_by_heading\<close> takes offsets in the lower-cased
  copy and cuts the text itself at them, and on such a text the two no longer agree.
\<close>

definition LF :: char where "LF = CHR 0x0A"
definition CR :: char where "CR = CHR 0x0D"
definition NBSP :: char where "NBSP = CHR 0xA0"

definition cp :: "char \<Rightarrow> nat" where
  "cp c = of_char c"

definition is_space :: "char \<Rightarrow> bool" where
  "is_space c = (let n = cp c in
     (9 \<le> n \<and> n \<le> 13) \<or> (28 \<le> n \<and> n \<le> 32) \<or> n = 133 \<or> n = 160)"

definition is_digit :: "char \<Rightarrow> bool" where
  "is_digit c = (let n = cp c in 48 \<le> n \<and> n \<le> 57)"

definition is_ascii_letter :: "char \<Rightarrow> bool" where
  "is_ascii_letter c = (let n = cp c in (65 \<le> n \<and> n \<le> 90) \<or> (97 \<le> n \<and> n \<le> 122))"

definition is_word :: "char \<Rightarrow> bool" where
  "is_word c = (let n = cp c in
     is_digit c \<or> is_ascii_letter c \<or> n = 95 \<or> n = 170 \<or> n = 178 \<or> n = 179 \<or> n = 181
     \<or> n = 185 \<or> n = 186 \<or> (188 \<le> n \<and> n \<le> 190) \<or> (192 \<le> n \<and> n \<le> 214)
     \<or> (216 \<le> n \<and> n \<le> 246) \<or> 248 \<le> n)"

definition lower_char :: "char \<Rightarrow> char" where
  "lower_char c = (let n = cp c in
     if (65 \<le> n \<and> n \<le> 90) \<or> (192 \<le> n \<and> n \<le> 214) \<or> (216 \<le> n \<and> n \<le> 222)
     then char_of (n + 32) else c)"

definition lower :: "string \<Rightarrow> string" where
  "lower s = map lower_char s"

definition strip :: "string \<Rightarrow> string" where
  "strip s = rev (dropWhile is_space (rev (dropWhile is_space s)))"

definition startswith :: "string \<Rightarrow> string \<Rightarrow> bool" where
  "startswith s p = (take (length p) s = p)"

definition endswith :: "string \<Rightarrow> string \<Rightarrow> bool" where
  "endswith s p = (length p \<le> length s \<and> drop (length s - length p) s = p)"

text \<open>\<^verbatim>\<open>s[a:b]\<close> for \<open>0 \<le> a\<close>, \<open>0 \<le> b\<close>: Python clips both ends, and so do take and drop.\<close>

definition slice :: "string \<Rightarrow> nat \<Rightarrow> nat \<Rightarrow> string" where
  "slice s a b = drop a (take b s)"

text \<open>
  \<^verbatim>\<open>str.replace(old, new)\<close>: the occurrences of \<open>old\<close> are replaced from left to right
  without overlap; an empty \<open>old\<close> matches between all characters.
\<close>

function replace_nonempty :: "string \<Rightarrow> string \<Rightarrow> string \<Rightarrow> string" where
  "replace_nonempty old new [] = []"
| "replace_nonempty old new (c # cs) =
     (if old \<noteq> [] \<and> startswith (c # cs) old
      then new @ replace_nonempty old new (drop (length old) (c # cs))
      else c # replace_nonempty old new cs)"
  by pat_completeness auto
termination
  by (relation "measure (\<lambda>(old, new, s). length s)") auto

definition replace :: "string \<Rightarrow> string \<Rightarrow> string \<Rightarrow> string" where
  "replace s old new =
     (if old = [] then new @ concat (map (\<lambda>c. c # new) s) else replace_nonempty old new s)"

section \<open>normalize_text\<close>

definition normalize_text :: "string \<Rightarrow> string" where
  "normalize_text text =
     (let text = replace (replace text [CR, LF] [LF]) [CR] [LF];
          text = replace text [NBSP] '' ''
      in text)"

section \<open>Regular expressions\<close>

text \<open>
  The patterns of the program use literals, character classes, greedy repetition of a
  character class, an optional group, alternation, the anchors \<^verbatim>\<open>^\<close> and \<^verbatim>\<open>\b\<close>, and one
  capturing group. \<open>ends r s st\<close> lists, for a match attempt of \<open>r\<close> in \<open>s\<close> that
  starts in state \<open>st\<close> (the position and the span of group 1), the states in which it can
  end, in the order in which Python's backtracking matcher tries them: the head of the list
  is the match that \<^verbatim>\<open>re\<close> reports.
\<close>

datatype cclass =
    Lit char            \<comment> \<open>a literal character\<close>
  | LitI char           \<comment> \<open>a literal character under \<^verbatim>\<open>re.IGNORECASE\<close>\<close>
  | OneOf "char list"   \<comment> \<open>\<^verbatim>\<open>[...]\<close>\<close>
  | Space               \<comment> \<open>\<^verbatim>\<open>\s\<close>\<close>
  | Digit               \<comment> \<open>\<^verbatim>\<open>\d\<close>\<close>
  | AsciiLetter         \<comment> \<open>\<^verbatim>\<open>[a-zA-Z]\<close>\<close>
  | Dot                 \<comment> \<open>\<^verbatim>\<open>.\<close> without \<^verbatim>\<open>re.DOTALL\<close>\<close>

fun cmatch :: "cclass \<Rightarrow> char \<Rightarrow> bool" where
  "cmatch (Lit a) c = (c = a)"
| "cmatch (LitI a) c = (lower_char c = lower_char a)"
| "cmatch (OneOf as) c = (c \<in> set as)"
| "cmatch Space c = is_space c"
| "cmatch Digit c = is_digit c"
| "cmatch AsciiLetter c = is_ascii_letter c"
| "cmatch Dot c = (c \<noteq> LF)"

datatype regex =
    Atom cclass
  | Rep cclass nat      \<comment> \<open>greedy repetition, at least n times: \<^verbatim>\<open>*\<close>, \<^verbatim>\<open>+\<close>, \<^verbatim>\<open>{2,}\<close>\<close>
  | Cat regex regex
  | Alt regex regex
  | Opt regex           \<comment> \<open>greedy \<^verbatim>\<open>?\<close>\<close>
  | Group regex         \<comment> \<open>capturing group 1\<close>
  | Bol                 \<comment> \<open>\<^verbatim>\<open>^\<close> under \<^verbatim>\<open>re.MULTILINE\<close>\<close>
  | Bos                 \<comment> \<open>\<^verbatim>\<open>^\<close> without \<^verbatim>\<open>re.MULTILINE\<close>\<close>
  | WordB               \<comment> \<open>\<^verbatim>\<open>\b\<close>\<close>
  | Eps

type_synonym mstate = "nat \<times> (nat \<times> nat) option"

definition word_at :: "string \<Rightarrow> nat \<Rightarrow> bool" where
  "word_at s i = (i < length s \<and> is_word (s ! i))"

definition boundary :: "string \<Rightarrow> nat \<Rightarrow> bool" where
  "boundary s i = ((i > 0 \<and> word_at s (i - 1)) \<noteq> word_at s i)"

definition run :: "cclass \<Rightarrow> string \<Rightarrow> nat \<Rightarrow> nat" where
  "run c s i = length (takeWhile (cmatch c) (drop i s))"

fun ends :: "regex \<Rightarrow> string \<Rightarrow> mstate \<Rightarrow> mstate list" where
  "ends (Atom c) s (i, g) = (if i < length s \<and> cmatch c (s ! i) then [(i + 1, g)] else [])"
| "ends (Rep c n) s (i, g) = map (\<lambda>k. (i + k, g)) (rev [n ..< run c s i + 1])"
| "ends (Cat a b) s st = concat (map (\<lambda>st'. ends b s st') (ends a s st))"
| "ends (Alt a b) s st = ends a s st @ ends b s st"
| "ends (Opt a) s st = ends a s st @ [st]"
| "ends (Group a) s (i, g) = map (\<lambda>(j, g'). (j, Some (i, j))) (ends a s (i, g))"
| "ends Bol s (i, g) = (if i = 0 \<or> (i \<le> length s \<and> s ! (i - 1) = LF) then [(i, g)] else [])"
| "ends Bos s (i, g) = (if i = 0 then [(i, g)] else [])"
| "ends WordB s (i, g) = (if boundary s i then [(i, g)] else [])"
| "ends Eps s st = [st]"

text \<open>
  A pattern written as a sequence of items, and the literal text \<open>w\<close> as a pattern, with
  and without \<^verbatim>\<open>re.IGNORECASE\<close>.
\<close>

definition seq :: "regex list \<Rightarrow> regex" where
  "seq rs = foldr Cat rs Eps"

definition lits :: "string \<Rightarrow> regex" where
  "lits w = seq (map (\<lambda>c. Atom (Lit c)) w)"

definition litsI :: "string \<Rightarrow> regex" where
  "litsI w = seq (map (\<lambda>c. Atom (LitI c)) w)"

text \<open>
  A match object: where the match starts and ends, and the span of group 1.
  \<^verbatim>\<open>re.search\<close> tries the start positions \<open>0, 1, ..., len(s)\<close> in turn.
\<close>

record rmatch =
  m_start :: nat
  m_end :: nat
  m_group1 :: "(nat \<times> nat) option"

definition match_at :: "regex \<Rightarrow> string \<Rightarrow> nat \<Rightarrow> rmatch option" where
  "match_at r s i = (case ends r s (i, None) of
      [] \<Rightarrow> None
    | (j, g) # _ \<Rightarrow> Some \<lparr>m_start = i, m_end = j, m_group1 = g\<rparr>)"

fun search_from :: "regex \<Rightarrow> string \<Rightarrow> nat list \<Rightarrow> rmatch option" where
  "search_from r s [] = None"
| "search_from r s (i # is) = (case match_at r s i of
      Some m \<Rightarrow> Some m
    | None \<Rightarrow> search_from r s is)"

definition re_search :: "regex \<Rightarrow> string \<Rightarrow> rmatch option" where
  "re_search r s = search_from r s [0 ..< length s + 1]"

definition group1 :: "rmatch \<Rightarrow> string \<Rightarrow> string" where
  "group1 m s = (case m_group1 m of Some (a, b) \<Rightarrow> slice s a b | None \<Rightarrow> [])"

text \<open>
  \<^verbatim>\<open>re.split(r, s)[0]\<close> for a pattern that matches no empty string: the text before the
  first match, or all of \<open>s\<close> when there is none.
\<close>

definition re_split_first :: "regex \<Rightarrow> string \<Rightarrow> string" where
  "re_split_first r s = (case re_search r s of None \<Rightarrow> s | Some m \<Rightarrow> take (m_start m) s)"

section \<open>extract_patient_name\<close>

text \<open>
  \<^verbatim>\<open>r"patient name[:\-]\s*(.+)"\<close>, \<^verbatim>\<open>r"patient[:\-]\s*(.+)"\<close> and \<^verbatim>\<open>r"name[:\-]\s*(.+)"\<close>,
  searched with \<^verbatim>\<open>re.IGNORECASE\<close>.
\<close>

definition label_pattern :: "string \<Rightarrow> regex" where
  "label_pattern label = seq [litsI label, Atom (OneOf '':-''), Rep Space 0, Group (Rep Dot 1)]"

definition patterns :: "regex list" where
  "patterns = [label_pattern ''patient name'', label_pattern ''patient'', label_pattern ''name'']"

text \<open>\<^verbatim>\<open>r"\s{2,}|dob"\<close> with \<^verbatim>\<open>re.IGNORECASE\<close>.\<close>

definition separator :: regex where
  "separator = Alt (Rep Space 2) (litsI ''dob'')"

text \<open>Lines 77 to 79: the captured remainder, cut at the first separator and trimmed.\<close>

definition cut_line :: "string \<Rightarrow> string" where
  "cut_line captured = (let line = strip captured in strip (re_split_first separator line))"

definition accepted :: "string \<Rightarrow> bool" where
  "accepted line = (0 < length line \<and> length line \<le> 80)"

text \<open>The loop of lines 74 to 84 over the patterns that are left.\<close>

fun try_patterns :: "regex list \<Rightarrow> string \<Rightarrow> string" where
  "try_patterns [] norm = ''Unknown''"
| "try_patterns (pat # pats) norm = (case re_search pat norm of
      None \<Rightarrow> try_patterns pats norm
    | Some m \<Rightarrow>
        (let line = cut_line (group1 m norm)
         in if accepted line then line else try_patterns pats norm))"

definition extract_patient_name :: "string \<Rightarrow> string" where
  "extract_patient_name text = try_patterns patterns (normalize_text text)"

section \<open>extract_section_by_heading\<close>

text \<open>
  \<^verbatim>\<open>rf"^\s*(?:\d+\s*[\.\)])?\s*{heading}s?\b\s*[:\-.]?"\<close> under \<^verbatim>\<open>re.MULTILINE\<close> and
  \<^verbatim>\<open>rf"\b{kw}s?\b\s*[:\-.]?"\<close>, searched in the lower-cased text. In the source the last
  class also holds the en dash U+2013 and the em dash U+2014, which no modelled text
  contains. The heading is interpolated into the pattern; it is modelled as literal text,
  which is what the interpolation gives for a name without regex metacharacters
  (\<open>plain_name\<close>), as at both call sites.
\<close>

definition plain_name :: "string \<Rightarrow> bool" where
  "plain_name w = (\<forall>c \<in> set w. c \<notin> set ''.^$*+?{}[]()|'' \<and> c \<noteq> CHR 0x5C)"

definition heading_pattern :: "string \<Rightarrow> regex" where
  "heading_pattern heading =
     seq [Bol, Rep Space 0, Opt (seq [Rep Digit 1, Rep Space 0, Atom (OneOf ''.)'')]),
          Rep Space 0, lits heading, Opt (Atom (Lit (CHR ''s''))), WordB,
          Rep Space 0, Opt (Atom (OneOf '':-.''))]"

definition stop_pattern :: "string \<Rightarrow> regex" where
  "stop_pattern kw =
     seq [WordB, lits kw, Opt (Atom (Lit (CHR ''s''))), WordB,
          Rep Space 0, Opt (Atom (OneOf '':-.''))]"

text \<open>The loop of lines 119 to 127; it returns the final \<open>end_idx\<close>.\<close>

fun stop_loop :: "string list \<Rightarrow> string \<Rightarrow> nat \<Rightarrow> nat \<Rightarrow> nat" where
  "stop_loop [] low start_idx end_idx = end_idx"
| "stop_loop (kw # kws) low start_idx end_idx =
     (case re_search (stop_pattern kw) (drop start_idx low) of
        None \<Rightarrow> stop_loop kws low start_idx end_idx
      | Some m \<Rightarrow>
          (let candidate = start_idx + m_start m
           in stop_loop kws low start_idx (if candidate < end_idx then candidate else end_idx)))"

definition extract_section_by_heading :: "string \<Rightarrow> string \<Rightarrow> string list \<Rightarrow> string option" where
  "extract_section_by_heading text heading stop_headings =
     (if text = [] then None
      else
        let norm = normalize_text text;
            low = lower norm
        in case re_search (heading_pattern heading) low of
             None \<Rightarrow> None
           | Some heading_match \<Rightarrow>
               (let start_idx = m_end heading_match;
                    end_idx = stop_loop stop_headings low start_idx (length norm);
                    section_text = strip (slice norm start_idx end_idx)
                in if section_text = [] then None else Some section_text))"

definition extract_findings_section :: "string \<Rightarrow> string option" where
  "extract_findings_section text =
     extract_section_by_heading text ''findings''
       [''impression'', ''conclusion'', ''discussion'', ''report'']"

definition extract_impression_section :: "string \<Rightarrow> string option" where
  "extract_impression_section text =
     extract_section_by_heading text ''impression''
       [''conclusion'', ''discussion'', ''report'', ''findings'']"

section \<open>Choosing the text to classify\<close>

text \<open>
  Lines 347 to 371 of \<^verbatim>\<open>run_aggregation\<close>. \<^verbatim>\<open>if findings_text:\<close> is Python truthiness: the
  value is neither \<^verbatim>\<open>None\<close> nor the empty string.
\<close>

definition truthy :: "string option \<Rightarrow> bool" where
  "truthy x = (case x of None \<Rightarrow> False | Some s \<Rightarrow> s \<noteq> [])"

definition text_of :: "string option \<Rightarrow> string" where
  "text_of x = (case x of None \<Rightarrow> [] | Some s \<Rightarrow> s)"

definition select_section :: "string option \<Rightarrow> string option \<Rightarrow> string \<Rightarrow> string \<times> string" where
  "select_section findings_text impression_text full_text =
     (if truthy findings_text then (text_of findings_text, ''findings'')
      else if truthy impression_text then (text_of impression_text, ''impression'')
      else (full_text, ''full_report''))"

text \<open>The section text and source label that a document's text yields (lines 348 to 371).\<close>

definition section_for :: "string \<Rightarrow> string \<times> string" where
  "section_for full_text =
     select_section (extract_findings_section full_text) (extract_impression_section full_text)
       full_text"

section \<open>JSON values and json.loads\<close>

text \<open>
  \<^verbatim>\<open>json.loads\<close> is library code. Its result is a Python object: \<^verbatim>\<open>None\<close>, a \<^verbatim>\<open>bool\<close>, an
  \<^verbatim>\<open>int\<close>, a \<^verbatim>\<open>float\<close> (kept here as the text of the number), a \<^verbatim>\<open>str\<close>, a \<^verbatim>\<open>list\<close> or a
  \<^verbatim>\<open>dict\<close> that keeps the order in which its keys were first inserted. A JSON string can
  hold any code point through \<^verbatim>\<open>\uXXXX\<close>, so the strings of JSON values are lists of code
  points. The decoder below follows the grammar that CPython's decoder accepts (with
  \<^verbatim>\<open>NaN\<close>, \<^verbatim>\<open>Infinity\<close> and \<^verbatim>\<open>-Infinity\<close>, and control characters refused inside strings);
  every way of failing is \<^verbatim>\<open>json.JSONDecodeError\<close>, the value \<open>None\<close>. The limits of the
  interpreter on recursion depth and on the number of digits of an integer are not modelled.
\<close>

type_synonym ustring = "nat list"

definition ustr :: "string \<Rightarrow> ustring" where
  "ustr s = map cp s"

datatype json =
    JNull
  | JBool bool
  | JInt int
  | JFloat string
  | JStr ustring
  | JArr "json list"
  | JObj "(ustring \<times> json) list"

text \<open>\<^verbatim>\<open>d[k] = v\<close> on a dict: an existing key keeps its place, a new key goes last.\<close>

fun dict_set :: "(ustring \<times> json) list \<Rightarrow> ustring \<Rightarrow> json \<Rightarrow> (ustring \<times> json) list" where
  "dict_set [] k v = [(k, v)]"
| "dict_set ((k', v') # d) k v = (if k' = k then (k, v) # d else (k', v') # dict_set d k v)"

definition DQ :: char where "DQ = CHR 0x22"
definition BSL :: char where "BSL = CHR 0x5C"
definition BT :: char where "BT = CHR 0x60"

definition hex_val :: "char \<Rightarrow> nat option" where
  "hex_val c = (let n = cp c in
     if 48 \<le> n \<and> n \<le> 57 then Some (n - 48)
     else if 97 \<le> n \<and> n \<le> 102 then Some (n - 87)
     else if 65 \<le> n \<and> n \<le> 70 then Some (n - 55)
     else None)"

definition hex4 :: "string \<Rightarrow> nat option" where
  "hex4 s = (case map hex_val (take 4 s) of
      [Some a, Some b, Some c, Some d] \<Rightarrow> Some (((a * 16 + b) * 16 + c) * 16 + d)
    | _ \<Rightarrow> None)"

definition unescape :: "char \<Rightarrow> nat option" where
  "unescape e =
     (if e = DQ then Some 34 else if e = BSL then Some 92 else if e = CHR ''/'' then Some 47
      else if e = CHR ''b'' then Some 8 else if e = CHR ''f'' then Some 12
      else if e = CHR ''n'' then Some 10 else if e = CHR ''r'' then Some 13
      else if e = CHR ''t'' then Some 9 else None)"

text \<open>
  The body of a string literal, after its opening quote: the decoded text and the number
  of characters read, the closing quote included. A high surrogate followed by an escaped
  low surrogate is one code point.
\<close>

fun scan_string :: "ustring \<Rightarrow> nat \<Rightarrow> string \<Rightarrow> (ustring \<times> nat) option" where
  "scan_string acc n [] = None"
| "scan_string acc n (c # cs) =
     (if c = DQ then Some (rev acc, n + 1)
      else if c = BSL then
        (case cs of
           [] \<Rightarrow> None
         | e # es \<Rightarrow>
             if e = CHR ''u'' then
               (case hex4 es of
                  None \<Rightarrow> None
                | Some u \<Rightarrow>
                    if 0xD800 \<le> u \<and> u \<le> 0xDBFF \<and> startswith (drop 4 es) [BSL, CHR ''u''] then
                      (case hex4 (drop 6 es) of
                         None \<Rightarrow> None
                       | Some u2 \<Rightarrow>
                           if 0xDC00 \<le> u2 \<and> u2 \<le> 0xDFFF
                           then scan_string
                                  ((0x10000 + (u - 0xD800) * 1024 + (u2 - 0xDC00)) # acc)
                                  (n + 12) (drop 10 es)
                           else scan_string (u # acc) (n + 6) (drop 4 es))
                    else scan_string (u # acc) (n + 6) (drop 4 es))
             else
               (case unescape e of
                  None \<Rightarrow> None
                | Some x \<Rightarrow> scan_string (x # acc) (n + 2) es))
      else if cp c < 32 then None
      else scan_string (cp c # acc) (n + 1) cs)"

text \<open>
  A number, \<^verbatim>\<open>(-?(?:0|[1-9][0-9]*))(\.[0-9]+)?([eE][-+]?[0-9]+)?\<close>: the value and the number of
  characters of the longest match at the start of the text.
\<close>

definition digits_val :: "string \<Rightarrow> nat" where
  "digits_val ds = foldl (\<lambda>a c. a * 10 + (cp c - 48)) 0 ds"

definition scan_number :: "string \<Rightarrow> (json \<times> nat) option" where
  "scan_number s =
     (let neg = startswith s ''-'' \<and> s \<noteq> [];
          s1 = (if neg then drop 1 s else s);
          ip = (if startswith s1 ''0'' \<and> s1 \<noteq> [] then ''0'' else takeWhile is_digit s1);
          s2 = drop (length ip) s1;
          fd = takeWhile is_digit (drop 1 s2);
          frac = (if startswith s2 ''.'' \<and> s2 \<noteq> [] \<and> fd \<noteq> [] then CHR ''.'' # fd else []);
          s3 = drop (length frac) s2;
          sg = (if s3 \<noteq> [] \<and> drop 1 s3 \<noteq> [] \<and> (s3 ! 1 = CHR ''+'' \<or> s3 ! 1 = CHR ''-'')
                then [s3 ! 1] else []);
          ed = takeWhile is_digit (drop (1 + length sg) s3);
          ex = (if s3 \<noteq> [] \<and> (s3 ! 0 = CHR ''e'' \<or> s3 ! 0 = CHR ''E'') \<and> ed \<noteq> []
                then s3 ! 0 # sg @ ed else []);
          lexeme = (if neg then ''-'' else []) @ ip @ frac @ ex
      in if ip = [] then None
         else if frac = [] \<and> ex = []
         then Some (JInt (if neg then - int (digits_val ip) else int (digits_val ip)),
                    length lexeme)
         else Some (JFloat lexeme, length lexeme))"

datatype token = TLBrace | TRBrace | TLBrack | TRBrack | TColon | TComma | TVal json

text \<open>
  The token at the start of the text \<open>c # cs\<close> (none for a white space character: space,
  tab, line feed, carriage return) and the number of characters of \<open>cs\<close> that it takes.
\<close>

definition next_token :: "char \<Rightarrow> string \<Rightarrow> (token option \<times> nat) option" where
  "next_token c cs =
     (if c = CHR '' '' \<or> c = CHR 0x09 \<or> c = LF \<or> c = CR then Some (None, 0)
      else if c = CHR ''{'' then Some (Some TLBrace, 0)
      else if c = CHR ''}'' then Some (Some TRBrace, 0)
      else if c = CHR ''['' then Some (Some TLBrack, 0)
      else if c = CHR '']'' then Some (Some TRBrack, 0)
      else if c = CHR '':'' then Some (Some TColon, 0)
      else if c = CHR '','' then Some (Some TComma, 0)
      else if c = DQ then
        (case scan_string [] 0 cs of
           None \<Rightarrow> None
         | Some (u, k) \<Rightarrow> Some (Some (TVal (JStr u)), k))
      else if startswith (c # cs) ''null'' then Some (Some (TVal JNull), 3)
      else if startswith (c # cs) ''true'' then Some (Some (TVal (JBool True)), 3)
      else if startswith (c # cs) ''false'' then Some (Some (TVal (JBool False)), 4)
      else
        (case scan_number (c # cs) of
           Some (v, k) \<Rightarrow> Some (Some (TVal v), k - 1)
         | None \<Rightarrow>
             if startswith (c # cs) ''NaN'' then Some (Some (TVal (JFloat ''NaN'')), 2)
             else if startswith (c # cs) ''Infinity''
             then Some (Some (TVal (JFloat ''Infinity'')), 7)
             else if startswith (c # cs) ''-Infinity''
             then Some (Some (TVal (JFloat ''-Infinity'')), 8)
             else None))"

function lex :: "string \<Rightarrow> token list option" where
  "lex [] = Some []"
| "lex (c # cs) =
     (case next_token c cs of
        None \<Rightarrow> None
      | Some (t, k) \<Rightarrow>
          (case lex (drop k cs) of
             None \<Rightarrow> None
           | Some ts \<Rightarrow> Some (case t of None \<Rightarrow> ts | Some t' \<Rightarrow> t' # ts)))"
  by pat_completeness auto
termination
  by (relation "measure length") auto

text \<open>
  The grammar, as a machine over the tokens with a stack of the containers that are
  open: an array with its items so far (latest first), an object with its pairs so far,
  or an object that has read a key and waits for its value.
\<close>

datatype frame =
    FArr "json list"
  | FObj "(ustring \<times> json) list"
  | FKey "(ustring \<times> json) list" ustring

datatype mode =
    MValue          \<comment> \<open>a value must start\<close>
  | MValueOrClose   \<comment> \<open>after \<^verbatim>\<open>[\<close>\<close>
  | MKeyOrClose     \<comment> \<open>after \<^verbatim>\<open>{\<close>\<close>
  | MKey            \<comment> \<open>after a comma in an object\<close>
  | MColon          \<comment> \<open>after a key\<close>
  | MAfter          \<comment> \<open>after a value in a container\<close>
  | MDone json      \<comment> \<open>the document is complete\<close>

fun push_value :: "json \<Rightarrow> frame list \<Rightarrow> (mode \<times> frame list) option" where
  "push_value v [] = Some (MDone v, [])"
| "push_value v (FArr items # st) = Some (MAfter, FArr (v # items) # st)"
| "push_value v (FKey d k # st) = Some (MAfter, FObj (dict_set d k v) # st)"
| "push_value v (FObj d # st) = None"

definition open_or_value :: "frame list \<Rightarrow> token \<Rightarrow> (mode \<times> frame list) option" where
  "open_or_value st t = (case t of
      TVal v \<Rightarrow> push_value v st
    | TLBrace \<Rightarrow> Some (MKeyOrClose, FObj [] # st)
    | TLBrack \<Rightarrow> Some (MValueOrClose, FArr [] # st)
    | _ \<Rightarrow> None)"

definition read_key :: "frame list \<Rightarrow> token \<Rightarrow> (mode \<times> frame list) option" where
  "read_key st t = (case (st, t) of
      (FObj d # st', TVal (JStr k)) \<Rightarrow> Some (MColon, FKey d k # st')
    | _ \<Rightarrow> None)"

definition close_array :: "frame list \<Rightarrow> (mode \<times> frame list) option" where
  "close_array st = (case st of FArr items # st' \<Rightarrow> push_value (JArr (rev items)) st' | _ \<Rightarrow> None)"

definition close_object :: "frame list \<Rightarrow> (mode \<times> frame list) option" where
  "close_object st = (case st of FObj d # st' \<Rightarrow> push_value (JObj d) st' | _ \<Rightarrow> None)"

definition step :: "mode \<Rightarrow> frame list \<Rightarrow> token \<Rightarrow> (mode \<times> frame list) option" where
  "step m st t = (case m of
      MValue \<Rightarrow> open_or_value st t
    | MValueOrClose \<Rightarrow> (if t = TRBrack then close_array st else open_or_value st t)
    | MKeyOrClose \<Rightarrow> (if t = TRBrace then close_object st else read_key st t)
    | MKey \<Rightarrow> read_key st t
    | MColon \<Rightarrow> (if t = TColon then Some (MValue, st) else None)
    | MAfter \<Rightarrow>
        (case st of
           FArr items # st' \<Rightarrow>
             (if t = TComma then Some (MValue, st)
              else if t = TRBrack then close_array st else None)
         | FObj d # st' \<Rightarrow>
             (if t = TComma then Some (MKey, st)
              else if t = TRBrace then close_object st else None)
         | _ \<Rightarrow> None)
    | MDone v \<Rightarrow> None)"

fun parse :: "mode \<Rightarrow> frame list \<Rightarrow> token list \<Rightarrow> json option" where
  "parse m st [] = (case m of MDone v \<Rightarrow> Some v | _ \<Rightarrow> None)"
| "parse m st (t # ts) = (case step m st t of
      None \<Rightarrow> None
    | Some (m', st') \<Rightarrow> parse m' st' ts)"

definition json_loads :: "string \<Rightarrow> json option" where
  "json_loads s = (case lex s of None \<Rightarrow> None | Some ts \<Rightarrow> parse MValue [] ts)"

section \<open>summarize_section_structured\<close>

text \<open>
  The client is the external classification service. The prompt of lines 162 to 202 is
  fixed text around \<open>source_label\<close> and \<open>section_text\<close>, so the service is a function of
  these two; it gives \<^verbatim>\<open>resp.output_text\<close>, or \<open>None\<close> when the call raises.
\<close>

type_synonym client = "string \<Rightarrow> string \<Rightarrow> string option"

datatype exn = CallError | AttributeError

text \<open>\<^verbatim>\<open>r"^```[a-zA-Z]*"\<close>; without \<^verbatim>\<open>re.MULTILINE\<close> it can match at position 0 only.\<close>

definition fence :: regex where
  "fence = seq [Bos, lits [BT, BT, BT], Rep AsciiLetter 0]"

definition re_sub_prefix :: "regex \<Rightarrow> string \<Rightarrow> string" where
  "re_sub_prefix r s = (case match_at r s 0 of None \<Rightarrow> s | Some m \<Rightarrow> drop (m_end m) s)"

text \<open>Lines 213 to 217.\<close>

definition strip_fences :: "string \<Rightarrow> string" where
  "strip_fences raw =
     (if startswith raw [BT, BT, BT] then
        (let raw = strip (re_sub_prefix fence raw)
         in if endswith raw [BT, BT, BT] then strip (take (length raw - 3) raw) else raw)
      else raw)"

text \<open>The dict of lines 222 to 227.\<close>

definition fallback :: "string \<Rightarrow> string \<Rightarrow> json" where
  "fallback section_text raw =
     JObj [(ustr ''summary'',
              JStr (ustr (take 300 section_text
                          @ (if length section_text > 300 then ''...'' else [])))),
           (ustr ''severity_label'', JStr (ustr ''uncertain'')),
           (ustr ''severity_score'', JInt 3),
           (ustr ''raw_llm_output'', JStr (ustr raw))]"

text \<open>Lines 211 to 228: from the text of the response to the value that is returned.\<close>

definition structured_from_output :: "string \<Rightarrow> string \<Rightarrow> json" where
  "structured_from_output output_text section_text =
     (let raw = strip_fences (strip output_text)
      in case json_loads raw of
           None \<Rightarrow> fallback section_text raw
         | Some data \<Rightarrow> data)"

definition summarize_section_structured :: "client \<Rightarrow> string \<Rightarrow> string \<Rightarrow> exn + json" where
  "summarize_section_structured cl section_text source_label =
     (case cl source_label section_text of
        None \<Rightarrow> Inl CallError
      | Some output_text \<Rightarrow> Inr (structured_from_output output_text section_text))"

section \<open>run_aggregation\<close>

text \<open>
  \<^verbatim>\<open>structured.get(key, default)\<close> and \<^verbatim>\<open>.strip()\<close>: only a dict has \<^verbatim>\<open>get\<close> and only a
  \<^verbatim>\<open>str\<close> has \<^verbatim>\<open>strip\<close>; on any other object the attribute access raises
  \<^verbatim>\<open>AttributeError\<close>. White space over all code points is \<^verbatim>\<open>str.isspace\<close>.
\<close>

definition is_space_cp :: "nat \<Rightarrow> bool" where
  "is_space_cp n =
     ((9 \<le> n \<and> n \<le> 13) \<or> (28 \<le> n \<and> n \<le> 32) \<or> n = 133 \<or> n = 160 \<or> n = 0x1680
      \<or> (0x2000 \<le> n \<and> n \<le> 0x200A) \<or> n = 0x2028 \<or> n = 0x2029 \<or> n = 0x202F
      \<or> n = 0x205F \<or> n = 0x3000)"

definition ustrip :: "ustring \<Rightarrow> ustring" where
  "ustrip s = rev (dropWhile is_space_cp (rev (dropWhile is_space_cp s)))"

definition dict_get :: "json \<Rightarrow> ustring \<Rightarrow> json \<Rightarrow> exn + json" where
  "dict_get obj k dflt = (case obj of
      JObj d \<Rightarrow> Inr (case map_of d k of Some v \<Rightarrow> v | None \<Rightarrow> dflt)
    | _ \<Rightarrow> Inl AttributeError)"

definition str_strip :: "json \<Rightarrow> exn + ustring" where
  "str_strip v = (case v of JStr s \<Rightarrow> Inr (ustrip s) | _ \<Rightarrow> Inl AttributeError)"

text \<open>The dict appended to \<^verbatim>\<open>per_report_rows\<close> (lines 388 to 396).\<close>

record report_row =
  row_file :: string
  row_patient_name :: string
  row_summary :: ustring
  row_severity_label :: json
  row_severity_score :: json

text \<open>Lines 384 to 396.\<close>

definition make_row :: "string \<Rightarrow> string \<Rightarrow> json \<Rightarrow> exn + report_row" where
  "make_row basename name structured =
     (case dict_get structured (ustr ''summary'') (JStr []) of
        Inl x \<Rightarrow> Inl x
      | Inr v \<Rightarrow>
          (case str_strip v of
             Inl x \<Rightarrow> Inl x
           | Inr summary' \<Rightarrow>
               (case dict_get structured (ustr ''severity_label'') (JStr (ustr ''uncertain'')) of
                  Inl x \<Rightarrow> Inl x
                | Inr label \<Rightarrow>
                    (case dict_get structured (ustr ''severity_score'') (JInt 3) of
                       Inl x \<Rightarrow> Inl x
                     | Inr score \<Rightarrow>
                         Inr \<lparr>row_file = basename, row_patient_name = name,
                              row_summary = summary', row_severity_label = label,
                              row_severity_score = score\<rparr>))))"

text \<open>
  What the run reads from its surroundings: the client (absent without an API key),
  whether the two folders exist, the names in the input folder, the text of each PDF
  (\<open>None\<close> when reading it raises) and whether the two output files can be written.
\<close>

record env =
  client :: "client option"
  input_isdir :: bool
  output_isdir :: bool
  listdir :: "string list"
  load_pdf_text :: "string \<Rightarrow> string option"
  csv_writable :: bool
  json_writable :: bool

text \<open>
  One turn of the loop of lines 330 to 402: the document is skipped (\<^verbatim>\<open>continue\<close>), gives a
  row, or raises outside of any \<^verbatim>\<open>try\<close>.
\<close>

datatype turn = Skip | Row report_row | Uncaught exn

definition process_pdf :: "env \<Rightarrow> client \<Rightarrow> string \<Rightarrow> turn" where
  "process_pdf e cl basename =
     (case load_pdf_text e basename of
        None \<Rightarrow> Skip
      | Some full_text \<Rightarrow>
          (let name = extract_patient_name full_text;
               name = (if name = [] then ''Unknown'' else name);
               (section_text, source_label) = section_for full_text
           in case summarize_section_structured cl section_text source_label of
                Inl x \<Rightarrow> Skip
              | Inr structured \<Rightarrow>
                  (case make_row basename name structured of
                     Inl x \<Rightarrow> Uncaught x
                   | Inr row \<Rightarrow> Row row)))"

fun process_all :: "env \<Rightarrow> client \<Rightarrow> string list \<Rightarrow> report_row list \<Rightarrow> exn + report_row list" where
  "process_all e cl [] per_report_rows = Inr per_report_rows"
| "process_all e cl (f # fs) per_report_rows =
     (case process_pdf e cl f of
        Skip \<Rightarrow> process_all e cl fs per_report_rows
      | Row row \<Rightarrow> process_all e cl fs (per_report_rows @ [row])
      | Uncaught x \<Rightarrow> Inl x)"

text \<open>
  The two files (lines 438 to 458) as structured data: the CSV file is its rows of cells,
  the header first, and the JSON file is the array of the row dicts with their keys in
  insertion order. How \<^verbatim>\<open>csv.writer\<close> and \<^verbatim>\<open>json.dump\<close> print a cell is library code.
\<close>

definition csv_header :: "string list" where
  "csv_header = [''report_file'', ''patient_name'', ''severity_label'', ''severity_score'', ''summary'']"

definition csv_row :: "report_row \<Rightarrow> json list" where
  "csv_row row =
     [JStr (ustr (row_file row)), JStr (ustr (row_patient_name row)), row_severity_label row,
      row_severity_score row, JStr (row_summary row)]"

definition csv_file :: "report_row list \<Rightarrow> json list list" where
  "csv_file rows = map (\<lambda>h. JStr (ustr h)) csv_header # map csv_row rows"

definition row_dict :: "report_row \<Rightarrow> (ustring \<times> json) list" where
  "row_dict row =
     [(ustr ''file'', JStr (ustr (row_file row))),
      (ustr ''patient_name'', JStr (ustr (row_patient_name row))),
      (ustr ''summary'', JStr (row_summary row)),
      (ustr ''severity_label'', row_severity_label row),
      (ustr ''severity_score'', row_severity_score row)]"

definition json_file :: "report_row list \<Rightarrow> json" where
  "json_file rows = JArr (map (\<lambda>row. JObj (row_dict row)) rows)"

datatype outcome =
    ShowError string                          \<comment> \<open>\<^verbatim>\<open>messagebox.showerror\<close>, then return\<close>
  | ShowInfo string                           \<comment> \<open>\<^verbatim>\<open>messagebox.showinfo\<close>, then return\<close>
  | NoValidSummaries                          \<comment> \<open>lines 404 to 409\<close>
  | Saved "json list list" json               \<comment> \<open>both files written\<close>
  | SaveError "json list list option"         \<comment> \<open>a write raised; the CSV file if it was written\<close>
  | Raised exn                                \<comment> \<open>an exception leaves \<^verbatim>\<open>run_aggregation\<close>\<close>

definition pdf_files :: "env \<Rightarrow> string list" where
  "pdf_files e = sort (filter (\<lambda>f. endswith (lower f) ''.pdf'') (listdir e))"

definition export :: "env \<Rightarrow> report_row list \<Rightarrow> outcome" where
  "export e rows =
     (if \<not> csv_writable e then SaveError None
      else if \<not> json_writable e then SaveError (Some (csv_file rows))
      else Saved (csv_file rows) (json_file rows))"

definition run_aggregation :: "env \<Rightarrow> outcome" where
  "run_aggregation e =
     (case client e of
        None \<Rightarrow> ShowError ''OpenAI client not initialized. Check API key.''
      | Some cl \<Rightarrow>
          if \<not> input_isdir e then ShowError ''Input folder does not exist''
          else if \<not> output_isdir e then ShowError ''Output folder does not exist''
          else if pdf_files e = [] then ShowInfo ''No PDF files found in the selected folder.''
          else
            (case process_all e cl (pdf_files e) [] of
               Inl x \<Rightarrow> Raised x
             | Inr per_report_rows \<Rightarrow>
                 if per_report_rows = [] then NoValidSummaries
                 else export e per_report_rows))"

section \<open>Notions used in the properties\<close>

text \<open>The pattern has a match that starts at position \<open>i\<close> of the text.\<close>

definition matches_at :: "regex \<Rightarrow> string \<Rightarrow> nat \<Rightarrow> bool" where
  "matches_at r s i = (ends r s (i, None) \<noteq> [])"

text \<open>
  What one pattern of the name extractor yields on a text: the cleaned value of its
  leftmost match when that value passes the length check.
\<close>

definition tier :: "regex \<Rightarrow> string \<Rightarrow> string option" where
  "tier pat norm = (case re_search pat norm of
      None \<Rightarrow> None
    | Some m \<Rightarrow> (let line = cut_line (group1 m norm) in if accepted line then Some line else None))"

text \<open>
  The name extractor as the specification describes it, for comparison with
  \<open>try_patterns\<close>: the first pattern that produces any match decides, and a rejected
  value gives \<^verbatim>\<open>"Unknown"\<close> at once.
\<close>

fun first_match_decides :: "regex list \<Rightarrow> string \<Rightarrow> string" where
  "first_match_decides [] norm = ''Unknown''"
| "first_match_decides (pat # pats) norm = (case re_search pat norm of
      None \<Rightarrow> first_match_decides pats norm
    | Some m \<Rightarrow>
        (let line = cut_line (group1 m norm)
         in if accepted line then line else ''Unknown''))"

definition spec_extract_patient_name :: "string \<Rightarrow> string" where
  "spec_extract_patient_name text = first_match_decides patterns (normalize_text text)"

text \<open>
  The start offsets, in the whole text, of all matches of all stop headings in the text
  that follows position \<open>start\<close>.
\<close>

definition stop_offsets :: "string list \<Rightarrow> string \<Rightarrow> nat \<Rightarrow> nat list" where
  "stop_offsets stop_headings low start =
     concat (map (\<lambda>kw. map (\<lambda>i. start + i)
                          (filter (matches_at (stop_pattern kw) (drop start low))
                             [0 ..< length (drop start low) + 1]))
                 stop_headings)"

text \<open>The domains of the two severity fields.\<close>

definition valid_label :: "json \<Rightarrow> bool" where
  "valid_label v = (v \<in> set (map (\<lambda>l. JStr (ustr l))
                       [''none/normal'', ''mild'', ''moderate'', ''severe'', ''uncertain'']))"

definition valid_score :: "json \<Rightarrow> bool" where
  "valid_score v = (case v of JInt n \<Rightarrow> 0 \<le> n \<and> n \<le> 5 | _ \<Rightarrow> False)"

text \<open>A text between double quotes, for writing JSON.\<close>

definition quoted :: "string \<Rightarrow> string" where
  "quoted s = DQ # s @ [DQ]"

text \<open>
  The fallback record as the specification names its fields, for comparison with
  \<open>fallback\<close>.
\<close>

definition spec_fallback :: "string \<Rightarrow> string \<Rightarrow> json" where
  "spec_fallback section_text raw =
     JObj [(ustr ''summary'',
              JStr (ustr (take 300 section_text
                          @ (if length section_text > 300 then ''...'' else [])))),
           (ustr ''severity_label'', JStr (ustr ''uncertain'')),
           (ustr ''severity_score'', JInt 3),
           (ustr ''raw_output'', JStr (ustr raw))]"

text \<open>The row that a document gives in the loop, if it gives one.\<close>

definition row_of :: "env \<Rightarrow> client \<Rightarrow> string \<Rightarrow> report_row option" where
  "row_of e cl f = (case process_pdf e cl f of Row row \<Rightarrow> Some row | _ \<Rightarrow> None)"

text \<open>The run reached the writing of the two files.\<close>

definition export_invoked :: "outcome \<Rightarrow> bool" where
  "export_invoked out = (case out of Saved c j \<Rightarrow> True | SaveError c \<Rightarrow> True | _ \<Rightarrow> False)"

text \<open>Documents, responses and surroundings used as concrete inputs.\<close>

definition doc_normal :: string where
  "doc_normal = ''Findings: no acute abnormality.'' @ [LF] @ ''Impression: normal study.''"


definition resp_out_of_domain :: string where
  "resp_out_of_domain = ''{'' @ quoted ''summary'' @ '': '' @ quoted ''x'' @ '', ''
     @ quoted ''severity_label'' @ '': '' @ quoted ''catastrophic'' @ '', ''
     @ quoted ''severity_score'' @ '': 99}''"

definition env_one :: "string \<Rightarrow> env" where
  "env_one response =
     \<lparr>client = Some (\<lambda>source_label section_text. Some response),
      input_isdir = True, output_isdir = True,
      listdir = [''notes.txt'', ''a.pdf''],
      load_pdf_text = (\<lambda>f. if f = ''a.pdf'' then Some doc_normal else None),
      csv_writable = True, json_writable = True\<rparr>"

definition doc_two_labels :: string where
  "doc_two_labels = ''Patient: dob'' @ [LF] @ ''Name: Bob''"

definition doc_no_heading :: string where
  "doc_no_heading = ''Brain MRI without contrast.''"

definition doc_impression :: string where
  "doc_impression = ''Impression: stable.''"


text \<open>
  Where the body of a section ends: at the least of the stop offsets after position
  \<open>start\<close>, and at the end of the text when there is none.
\<close>

definition body_end :: "string list \<Rightarrow> string \<Rightarrow> nat \<Rightarrow> nat" where
  "body_end stop_headings low start =
     Min (insert (length low) (set (stop_offsets stop_headings low start)))"

definition doc_inline :: string where
  "doc_inline = ''FINDINGS: mild edema noted. IMPRESSION: stable.''"

section \<open>Properties of the search\<close>

lemma match_at_start: "match_at r s i = Some m \<Longrightarrow> m_start m = i"
  by (auto simp: match_at_def split: list.splits)

lemma match_at_None: "match_at r s i = None \<longleftrightarrow> \<not> matches_at r s i"
  by (auto simp: match_at_def matches_at_def split: list.splits)

lemma search_from_upt_None:
  "search_from r s [a ..< b] = None \<longleftrightarrow> (\<forall>i. a \<le> i \<and> i < b \<longrightarrow> \<not> matches_at r s i)"
proof (induction "b - a" arbitrary: a)
  case 0
  then show ?case by auto
next
  case (Suc n)
  then have ab: "a < b" and n: "n = b - Suc a" by auto
  have upt: "[a ..< b] = a # [Suc a ..< b]" using ab by (simp add: upt_conv_Cons)
  have split: "(\<forall>i. a \<le> i \<and> i < b \<longrightarrow> \<not> matches_at r s i) \<longleftrightarrow>
      \<not> matches_at r s a \<and> (\<forall>i. Suc a \<le> i \<and> i < b \<longrightarrow> \<not> matches_at r s i)"
  proof (intro iffI conjI allI impI)
    assume h: "\<forall>i. a \<le> i \<and> i < b \<longrightarrow> \<not> matches_at r s i"
    show "\<not> matches_at r s a" using h ab by simp
    fix i assume "Suc a \<le> i \<and> i < b"
    then show "\<not> matches_at r s i" using h by simp
  next
    fix i
    assume h: "\<not> matches_at r s a \<and> (\<forall>i. Suc a \<le> i \<and> i < b \<longrightarrow> \<not> matches_at r s i)"
      and i: "a \<le> i \<and> i < b"
    show "\<not> matches_at r s i"
    proof (cases "i = a")
      case True
      then show ?thesis using h by simp
    next
      case False
      then have "Suc a \<le> i" using i by simp
      then show ?thesis using h i by simp
    qed
  qed
  show ?case
    unfolding upt split using Suc.hyps(1)[OF n]
    by (cases "match_at r s a") (simp_all add: match_at_None[symmetric])
qed

lemma search_from_upt_Some:
  "search_from r s [a ..< b] = Some m \<Longrightarrow>
     a \<le> m_start m \<and> m_start m < b \<and> match_at r s (m_start m) = Some m
     \<and> (\<forall>j. a \<le> j \<and> j < m_start m \<longrightarrow> \<not> matches_at r s j)"
proof (induction "b - a" arbitrary: a)
  case 0
  then show ?case by simp
next
  case (Suc n)
  then have ab: "a < b" and n: "n = b - Suc a" by auto
  have upt: "[a ..< b] = a # [Suc a ..< b]" using ab by (simp add: upt_conv_Cons)
  show ?case
  proof (cases "match_at r s a")
    case None
    then have "search_from r s [Suc a ..< b] = Some m" using Suc.prems upt by simp
    from Suc.hyps(1)[OF n this]
    have ih: "Suc a \<le> m_start m" "m_start m < b" "match_at r s (m_start m) = Some m"
      "\<And>j. Suc a \<le> j \<Longrightarrow> j < m_start m \<Longrightarrow> \<not> matches_at r s j"
      by auto
    have "\<not> matches_at r s j" if "a \<le> j" "j < m_start m" for j
    proof (cases "j = a")
      case True
      then show ?thesis using None by (simp add: match_at_None)
    next
      case False
      then show ?thesis using that ih(4)[of j] by simp
    qed
    then show ?thesis using ih by auto
  next
    case (Some m')
    then have "m' = m" using Suc.prems upt by simp
    then show ?thesis using Some ab match_at_start[OF Some] by auto
  qed
qed

lemma re_search_None:
  "re_search r s = None \<longleftrightarrow> (\<forall>i \<le> length s. \<not> matches_at r s i)"
  by (simp only: re_search_def search_from_upt_None) (auto simp: less_Suc_eq_le)

lemma re_search_Some:
  "re_search r s = Some m \<Longrightarrow>
     m_start m \<le> length s \<and> match_at r s (m_start m) = Some m
     \<and> (\<forall>j < m_start m. \<not> matches_at r s j)"
  using search_from_upt_Some[of r s 0 "length s + 1" m]
  by (simp only: re_search_def) (auto simp: less_Suc_eq_le)

lemma re_search_leftmost:
  assumes "matches_at r s i" "i \<le> length s"
  shows "\<exists>m. re_search r s = Some m \<and> m_start m \<le> i"
proof (cases "re_search r s")
  case None
  then show ?thesis using assms by (simp add: re_search_None)
next
  case (Some m)
  then show ?thesis using re_search_Some[OF Some] assms by (auto simp: not_less[symmetric])
qed

section \<open>Properties of strip and of patterns\<close>

lemma dropWhile_append_keep:
  "ys \<noteq> [] \<Longrightarrow> \<not> P (hd ys) \<Longrightarrow> dropWhile P (xs @ ys) = dropWhile P xs @ ys"
  by (induction xs) (auto simp: neq_Nil_conv)

lemma strip_around:
  assumes "w \<noteq> []" "\<not> is_space (hd w)" "\<not> is_space (last w)"
  shows "strip (pre @ w @ post) =
           dropWhile is_space pre @ w @ rev (dropWhile is_space (rev post))"
proof -
  have a: "dropWhile is_space (pre @ w @ post) = dropWhile is_space pre @ w @ post"
    using assms by (intro dropWhile_append_keep) (auto simp: hd_append)
  have "rev (dropWhile is_space pre @ w @ post) = rev post @ (rev w @ rev (dropWhile is_space pre))"
    by simp
  moreover have "dropWhile is_space (rev post @ (rev w @ rev (dropWhile is_space pre)))
       = dropWhile is_space (rev post) @ (rev w @ rev (dropWhile is_space pre))"
    using assms by (intro dropWhile_append_keep) (auto simp: hd_append hd_rev)
  ultimately show ?thesis by (simp add: strip_def a)
qed

lemma strip_leading_spaces:
  "\<forall>c \<in> set ws. is_space c \<Longrightarrow> strip (ws @ x) = strip x"
  by (simp add: strip_def)

lemma strip_spaces_around:
  assumes "w \<noteq> []" "\<not> is_space (hd w)" "\<not> is_space (last w)"
    and "\<forall>c \<in> set pre. is_space c" "\<forall>c \<in> set post. is_space c"
  shows "strip (pre @ w @ post) = w"
proof -
  have a: "dropWhile is_space pre = []" using assms(4) by (simp add: dropWhile_eq_Nil_conv)
  have b: "dropWhile is_space (rev post) = []"
    using assms(5) by (simp add: dropWhile_eq_Nil_conv)
  show ?thesis unfolding strip_around[OF assms(1-3)] a b by simp
qed

lemma seq_Cons: "seq (r # rs) = Cat r (seq rs)"
  by (simp add: seq_def)

lemma seq_Nil: "seq [] = Eps"
  by (simp add: seq_def)

lemma ends_Cat_Eps: "ends (Cat r Eps) s st = ends r s st"
proof -
  have "ends Eps s = (\<lambda>st. [st])" by (rule ext) simp
  then show ?thesis by (simp add: concat_map_singleton)
qed

section \<open>normalize_text is idempotent\<close>

lemma replace_nonempty_absent:
  "old \<noteq> [] \<Longrightarrow> hd old \<notin> set s \<Longrightarrow> replace_nonempty old new s = s"
proof (induction s)
  case Nil
  then show ?case by simp
next
  case (Cons c cs)
  then have "\<not> startswith (c # cs) old"
    by (cases old) (auto simp: startswith_def)
  then show ?case using Cons by simp
qed

text \<open>
  Claim C8. A text without carriage returns and without non-breaking spaces is returned
  unchanged by \<open>normalize_text\<close>, so that normalizing it twice gives the same as normalizing
  it once.
\<close>

theorem normalize_text_idempotent:
  assumes "CR \<notin> set t" "NBSP \<notin> set t"
  shows "normalize_text t = t \<and> normalize_text (normalize_text t) = normalize_text t"
proof -
  have "normalize_text t = t"
    using assms by (simp add: normalize_text_def replace_def replace_nonempty_absent)
  then show ?thesis by simp
qed

theorem normalize_text_idempotent_witness:
  "CR \<notin> set ''Findings: ok'' \<and> NBSP \<notin> set ''Findings: ok''
   \<and> normalize_text ''Findings: ok'' = ''Findings: ok''
   \<and> normalize_text (normalize_text ''Findings: ok'') = normalize_text ''Findings: ok''"
proof -
  have h1: "CR \<notin> set ''Findings: ok''" by code_simp
  have h2: "NBSP \<notin> set ''Findings: ok''" by code_simp
  show ?thesis using h1 h2 normalize_text_idempotent[OF h1 h2] by simp
qed

section \<open>The name extractor tries its patterns in turn\<close>

lemma try_patterns_tier:
  "try_patterns pats norm =
     (case List.map_filter (\<lambda>p. tier p norm) pats of [] \<Rightarrow> ''Unknown'' | v # _ \<Rightarrow> v)"
  by (induction pats) (auto simp: tier_def map_filter_simps Let_def split: option.splits)

text \<open>
  Claim C1, as amended. The extractor tries the three label patterns in order. Of each
  pattern only the leftmost match is examined: its captured remainder is cut at the first
  separator and trimmed, and the value is returned when its length is between 1 and 80.
  When the pattern has no match or the value is rejected, the next pattern is tried;
  \<^verbatim>\<open>"Unknown"\<close> is returned only when no pattern yields an accepted value.
\<close>

theorem extract_patient_name_tiers:
  "extract_patient_name text =
     (let norm = normalize_text text in
      case tier (label_pattern ''patient name'') norm of
        Some v \<Rightarrow> v
      | None \<Rightarrow> (case tier (label_pattern ''patient'') norm of
          Some v \<Rightarrow> v
        | None \<Rightarrow> (case tier (label_pattern ''name'') norm of
            Some v \<Rightarrow> v
          | None \<Rightarrow> ''Unknown'')))
   \<and> (\<forall>p norm v. tier p norm = Some v \<longleftrightarrow>
        (\<exists>m. re_search p norm = Some m \<and> v = cut_line (group1 m norm)
             \<and> 0 < length v \<and> length v \<le> 80))
   \<and> (\<forall>p norm m. re_search p norm = Some m \<longrightarrow>
        m_start m \<le> length norm \<and> matches_at p norm (m_start m)
        \<and> (\<forall>j < m_start m. \<not> matches_at p norm j))"
proof -
  have p1: "extract_patient_name text =
     (let norm = normalize_text text in
      case tier (label_pattern ''patient name'') norm of
        Some v \<Rightarrow> v
      | None \<Rightarrow> (case tier (label_pattern ''patient'') norm of
          Some v \<Rightarrow> v
        | None \<Rightarrow> (case tier (label_pattern ''name'') norm of
            Some v \<Rightarrow> v
          | None \<Rightarrow> ''Unknown'')))"
    by (simp add: extract_patient_name_def try_patterns_tier patterns_def map_filter_simps
        Let_def split: option.splits)
  have p2: "\<forall>p norm v. tier p norm = Some v \<longleftrightarrow>
        (\<exists>m. re_search p norm = Some m \<and> v = cut_line (group1 m norm)
             \<and> 0 < length v \<and> length v \<le> 80)"
    by (auto simp: tier_def accepted_def Let_def split: option.splits)
  have p3: "\<forall>p norm m. re_search p norm = Some m \<longrightarrow>
        m_start m \<le> length norm \<and> matches_at p norm (m_start m)
        \<and> (\<forall>j < m_start m. \<not> matches_at p norm j)"
  proof (intro allI impI)
    fix p norm m
    assume "re_search p norm = Some m"
    from re_search_Some[OF this]
    show "m_start m \<le> length norm \<and> matches_at p norm (m_start m)
        \<and> (\<forall>j < m_start m. \<not> matches_at p norm j)"
      using match_at_None[of p norm "m_start m"] by auto
  qed
  show ?thesis by (rule conjI[OF p1 conjI[OF p2 p3]])
qed

theorem extract_patient_name_tiers_witness:
  "tier (label_pattern ''patient name'') (normalize_text doc_two_labels) = None
   \<and> tier (label_pattern ''patient'') (normalize_text doc_two_labels) = None
   \<and> tier (label_pattern ''name'') (normalize_text doc_two_labels) = Some ''Bob''
   \<and> extract_patient_name doc_two_labels = ''Bob''"
proof -
  have t1: "tier (label_pattern ''patient name'') (normalize_text doc_two_labels) = None"
    by code_simp
  have t2: "tier (label_pattern ''patient'') (normalize_text doc_two_labels) = None"
    by code_simp
  have t3: "tier (label_pattern ''name'') (normalize_text doc_two_labels) = Some ''Bob''"
    by code_simp
  have "extract_patient_name doc_two_labels = ''Bob''"
    using extract_patient_name_tiers[of doc_two_labels, THEN conjunct1]
    by (simp only: Let_def t1 t2 t3 option.case)
  then show ?thesis using t1 t2 t3 by simp
qed

text \<open>
  The claim as the specification states it fails: on a text whose \<^verbatim>\<open>patient\<close> label has a
  rejected value and whose \<^verbatim>\<open>name\<close> label has a good one, the code returns the name,
  where the first matching pattern alone would give \<^verbatim>\<open>"Unknown"\<close>.
\<close>

theorem extract_patient_name_first_match_counterexample:
  "extract_patient_name (''Patient: dob'' @ [LF] @ ''Name: Bob'') = ''Bob''
   \<and> spec_extract_patient_name (''Patient: dob'' @ [LF] @ ''Name: Bob'') = ''Unknown''"
  by code_simp

section \<open>The separator dob\<close>

lemma lower_letter_not_space:
  "lower_char c = CHR ''d'' \<or> lower_char c = CHR ''o'' \<or> lower_char c = CHR ''b'' \<Longrightarrow> \<not> is_space c"
  by (auto simp: lower_char_def is_space_def cp_def Let_def split: if_splits)

lemma matches_dob:
  assumes "lower w = ''dob''"
  shows "matches_at separator (pre @ w @ post) (length pre)"
proof -
  from assms obtain a b c where w: "w = [a, b, c]"
    and l: "lower_char a = CHR ''d''" "lower_char b = CHR ''o''" "lower_char c = CHR ''b''"
    by (auto simp: lower_def map_eq_Cons_conv)
  have ld: "lower_char (CHR ''d'') = CHR ''d''" "lower_char (CHR ''o'') = CHR ''o''"
    "lower_char (CHR ''b'') = CHR ''b''"
    by (simp_all add: lower_char_def cp_def)
  show ?thesis
    by (simp add: matches_at_def separator_def litsI_def seq_def w l ld nth_append)
qed

text \<open>
  Claim C10. The separator \<^verbatim>\<open>dob\<close> is matched as a bare substring, in any mix of cases:
  when the captured remainder holds these three letters at some position, also inside a
  longer word, the value that reaches the length check is the trimmed text of a prefix
  that ends at or before that position. A captured remainder that starts with them gives
  the empty value, which the length check rejects, and the loop goes on to the next
  pattern.
\<close>

theorem dob_is_a_bare_separator:
  "(captured = pre @ w @ post \<and> lower w = ''dob'' \<longrightarrow>
      (\<exists>k \<le> length pre. cut_line captured = strip (take k captured)))
   \<and> (startswith (lower captured) ''dob'' \<longrightarrow>
        cut_line captured = [] \<and> \<not> accepted (cut_line captured)
        \<and> (\<forall>pat pats norm m. re_search pat norm = Some m \<and> group1 m norm = captured \<longrightarrow>
              try_patterns (pat # pats) norm = try_patterns pats norm))"
proof -
  have p1: "\<exists>k \<le> length pre. cut_line captured = strip (take k captured)"
    if c: "captured = pre @ w @ post" and l: "lower w = ''dob''"
    for captured pre w post
  proof -
    from l obtain a b c where w: "w = [a, b, c]"
      and lc: "lower_char a = CHR ''d''" "lower_char c = CHR ''b''"
      by (auto simp: lower_def map_eq_Cons_conv)
    have ns: "w \<noteq> []" "\<not> is_space (hd w)" "\<not> is_space (last w)"
      using w lc lower_letter_not_space by auto
    define pre' where "pre' = dropWhile is_space pre"
    define post' where "post' = rev (dropWhile is_space (rev post))"
    have line: "strip captured = pre' @ w @ post'"
      unfolding c pre'_def post'_def by (rule strip_around[OF ns])
    have "matches_at separator (pre' @ w @ post') (length pre')"
      by (rule matches_dob[OF l])
    then obtain m where m: "re_search separator (pre' @ w @ post') = Some m"
      and le: "m_start m \<le> length pre'"
      using re_search_leftmost[of separator "pre' @ w @ post'" "length pre'"] by auto
    define a' where "a' = length (takeWhile is_space pre)"
    have tw: "takeWhile is_space pre @ pre' = pre"
      by (simp add: pre'_def)
    have len: "length pre = a' + length pre'"
      using arg_cong[OF tw, of length] by (simp add: a'_def)
    have "take (a' + m_start m) (takeWhile is_space pre @ pre')
            = takeWhile is_space pre @ take (m_start m) pre'"
      by (simp add: a'_def)
    then have eq: "takeWhile is_space pre @ take (m_start m) pre' = take (a' + m_start m) pre"
      by (simp only: tw)
    have "cut_line captured = strip (take (m_start m) pre')"
      using m le by (simp add: cut_line_def Let_def line re_split_first_def)
    also have "\<dots> = strip (takeWhile is_space pre @ take (m_start m) pre')"
      by (rule strip_leading_spaces[symmetric]) (auto dest: set_takeWhileD)
    also have "takeWhile is_space pre @ take (m_start m) pre' = take (a' + m_start m) pre"
      by (rule eq)
    also have "take (a' + m_start m) pre = take (a' + m_start m) captured"
      using le len by (simp add: c)
    finally have "cut_line captured = strip (take (a' + m_start m) captured)" .
    moreover have "a' + m_start m \<le> length pre" using le len by simp
    ultimately show ?thesis by blast
  qed
  have p2: "cut_line captured = [] \<and> \<not> accepted (cut_line captured)
        \<and> (\<forall>pat pats norm m. re_search pat norm = Some m \<and> group1 m norm = captured \<longrightarrow>
              try_patterns (pat # pats) norm = try_patterns pats norm)"
    if s: "startswith (lower captured) ''dob''" for captured
  proof -
    have "captured = [] @ take 3 captured @ drop 3 captured" by simp
    moreover have "lower (take 3 captured) = ''dob''"
      using s by (simp add: startswith_def lower_def take_map numeral_3_eq_3)
    ultimately have "\<exists>k \<le> length ([]::string). cut_line captured = strip (take k captured)"
      by (rule p1)
    then have e: "cut_line captured = []" by (simp add: strip_def)
    then show ?thesis by (auto simp: accepted_def Let_def)
  qed
  show ?thesis using p1 p2 by blast
qed

theorem dob_is_a_bare_separator_witness:
  "''Mc Dobbs'' = ''Mc '' @ ''Dob'' @ ''bs'' \<and> lower ''Dob'' = ''dob''
   \<and> cut_line ''Mc Dobbs'' = ''Mc''
   \<and> startswith (lower ''Dobson, Ann'') ''dob'' \<and> cut_line ''Dobson, Ann'' = []
   \<and> \<not> accepted (cut_line ''Dobson, Ann'')"
proof -
  have h1: "''Mc Dobbs'' = ''Mc '' @ ''Dob'' @ ''bs'' \<and> lower ''Dob'' = ''dob''" by code_simp
  have h2: "startswith (lower ''Dobson, Ann'') ''dob''" by code_simp
  have c: "cut_line ''Mc Dobbs'' = ''Mc''" by code_simp
  show ?thesis
    using dob_is_a_bare_separator[of "''Dobson, Ann''" "''Mc ''" "''Dob''" "''bs''"] h1 h2 c
    by blast
qed

section \<open>The section segmenter\<close>

lemma Min_absorb:
  fixes c e :: nat
  assumes "finite A" "finite B" "c \<in> A" "\<forall>a \<in> A. c \<le> a"
  shows "Min (insert e (A \<union> B)) = Min (insert (min e c) B)"
proof (rule Min_eqI)
  show "finite (insert e (A \<union> B))" using assms by simp
next
  fix y assume "y \<in> insert e (A \<union> B)"
  then consider "y = e" | "y \<in> A" | "y \<in> B" by auto
  then show "Min (insert (min e c) B) \<le> y"
  proof cases
    case 1
    have "Min (insert (min e c) B) \<le> min e c" using assms by (intro Min_le) auto
    then show ?thesis using 1 by simp
  next
    case 2
    have "Min (insert (min e c) B) \<le> min e c" using assms by (intro Min_le) auto
    then show ?thesis using 2 assms(4) by (meson min.boundedE order_trans)
  next
    case 3
    then show ?thesis using assms by (intro Min_le) auto
  qed
next
  have "Min (insert (min e c) B) \<in> insert (min e c) B"
    using assms by (intro Min_in) auto
  then show "Min (insert (min e c) B) \<in> insert e (A \<union> B)"
    using assms(3) by (auto simp: min_def split: if_splits)
qed

lemma offsets_None:
  "re_search r s = None \<Longrightarrow> filter (matches_at r s) [0 ..< length s + 1] = []"
  by (auto simp: re_search_None filter_empty_conv less_Suc_eq_le)

lemma offsets_Some:
  assumes "re_search r s = Some m"
  shows "m_start m \<in> set (filter (matches_at r s) [0 ..< length s + 1])"
    and "\<forall>i \<in> set (filter (matches_at r s) [0 ..< length s + 1]). m_start m \<le> i"
proof -
  from re_search_Some[OF assms]
  have a: "m_start m \<le> length s" and b: "match_at r s (m_start m) = Some m"
    and c: "\<forall>j < m_start m. \<not> matches_at r s j" by auto
  have "matches_at r s (m_start m)" using b match_at_None[of r s "m_start m"] by simp
  then show "m_start m \<in> set (filter (matches_at r s) [0 ..< length s + 1])"
    using a by (simp del: upt_Suc add: less_Suc_eq_le)
  show "\<forall>i \<in> set (filter (matches_at r s) [0 ..< length s + 1]). m_start m \<le> i"
    using c by (auto simp del: upt_Suc simp: not_less[symmetric])
qed

lemma stop_offsets_Cons:
  "set (stop_offsets (kw # kws) low start) =
     (\<lambda>i. start + i) ` set (filter (matches_at (stop_pattern kw) (drop start low))
                               [0 ..< length (drop start low) + 1])
     \<union> set (stop_offsets kws low start)"
  by (simp add: stop_offsets_def)

lemma stop_loop_min:
  "stop_loop kws low start e0 = Min (insert e0 (set (stop_offsets kws low start)))"
proof (induction kws arbitrary: e0)
  case Nil
  then show ?case by (simp add: stop_offsets_def)
next
  case (Cons kw kws)
  let ?r = "stop_pattern kw" and ?s = "drop start low"
  let ?F = "set (filter (matches_at ?r ?s) [0 ..< length ?s + 1])"
  let ?B = "set (stop_offsets kws low start)"
  show ?case
  proof (cases "re_search ?r ?s")
    case None
    then have "?F = {}" using offsets_None[OF None] by simp
    then show ?thesis using None Cons.IH by (simp add: stop_offsets_Cons del: upt_Suc)
  next
    case (Some m)
    let ?c = "start + m_start m"
    have in_A: "?c \<in> (\<lambda>i. start + i) ` ?F" using offsets_Some(1)[OF Some] by blast
    have least: "\<forall>a \<in> (\<lambda>i. start + i) ` ?F. ?c \<le> a" using offsets_Some(2)[OF Some] by auto
    have "stop_loop (kw # kws) low start e0 = Min (insert (min e0 ?c) ?B)"
      using Some Cons.IH[of "if ?c < e0 then ?c else e0"]
      by (simp add: Let_def min_def not_less del: upt_Suc)
    also have "\<dots> = Min (insert e0 ((\<lambda>i. start + i) ` ?F \<union> ?B))"
      by (rule Min_absorb[symmetric]) (use in_A least in auto)
    finally show ?thesis by (simp only: stop_offsets_Cons)
  qed
qed

lemma ends_lits_Nil: "ends (lits h) [] st = (if h = [] then [st] else [])"
  by (cases h; cases st) (simp_all add: lits_def seq_def)

lemma normalize_text_Nil: "normalize_text [] = []"
  by (simp add: normalize_text_def replace_def)

lemma heading_no_match_empty: "\<not> matches_at (heading_pattern h) [] i"
proof (cases "i = 0")
  case True
  then show ?thesis
    by (simp add: matches_at_def heading_pattern_def seq_Cons ends_lits_Nil run_def
        boundary_def word_at_def)
next
  case False
  then show ?thesis
    by (simp add: matches_at_def heading_pattern_def seq_Cons)
qed

lemma heading_match_line_start:
  "matches_at (heading_pattern h) s i \<Longrightarrow> i = 0 \<or> (i \<le> length s \<and> s ! (i - 1) = LF)"
  by (auto simp: matches_at_def heading_pattern_def seq_Cons split: if_splits)

lemma lower_length: "length (lower s) = length s"
  by (simp add: lower_def)

text \<open>
  The segmenter on a text whose lower-cased copy has the same length, as every modelled
  text has, for a heading and stop headings without regex metacharacters. With \<open>norm\<close>
  the normalized text and \<open>low\<close> its lower-cased copy, it returns \<open>None\<close> exactly when the
  heading pattern matches at no position of \<open>low\<close> or the bounded body trims to the empty
  text. Otherwise the leftmost heading match starts at the start of a line, and the
  result is the trimmed part of \<open>norm\<close> from the end of that match to \<open>body_end\<close>: the
  least start offset of all matches of all stop headings in the text after the heading,
  which is at or before each of them, or the end of the text when no stop heading
  matches. The offsets are those of \<open>low\<close>; that they cut \<open>norm\<close> at the same places
  rests on the equal lengths.
\<close>

theorem section_segmenter:
  assumes "plain_name heading" and "\<forall>kw \<in> set stop_headings. plain_name kw"
    and "norm = normalize_text text" and "low = lower norm"
    and "length low = length norm"
  shows
    "(extract_section_by_heading text heading stop_headings = None \<longleftrightarrow>
        (\<forall>i \<le> length low. \<not> matches_at (heading_pattern heading) low i)
        \<or> (\<exists>m. re_search (heading_pattern heading) low = Some m
              \<and> strip (slice norm (m_end m) (body_end stop_headings low (m_end m))) = []))
     \<and> (\<forall>m. re_search (heading_pattern heading) low = Some m \<longrightarrow>
          (m_start m = 0 \<or> low ! (m_start m - 1) = LF)
          \<and> matches_at (heading_pattern heading) low (m_start m)
          \<and> (\<forall>j < m_start m. \<not> matches_at (heading_pattern heading) low j)
          \<and> extract_section_by_heading text heading stop_headings =
              (let body = strip (slice norm (m_end m) (body_end stop_headings low (m_end m)))
               in if body = [] then None else Some body))
     \<and> (\<forall>start \<le> length low. body_end stop_headings low start =
            (if stop_offsets stop_headings low start = [] then length norm
             else Min (set (stop_offsets stop_headings low start)))
          \<and> (\<forall>i kw. kw \<in> set stop_headings \<and> i \<le> length low - start
                \<and> matches_at (stop_pattern kw) (drop start low) i
                \<longrightarrow> body_end stop_headings low start \<le> start + i))"
proof -
  let ?H = "heading_pattern heading"
  have len: "length low = length norm" by (rule assms(5))
  have some: "extract_section_by_heading text heading stop_headings =
              (let body = strip (slice norm (m_end m) (body_end stop_headings low (m_end m)))
               in if body = [] then None else Some body)"
    if m: "re_search ?H low = Some m" for m
  proof -
    have "text \<noteq> []"
    proof
      assume "text = []"
      then have "low = []" using assms(3,4) by (simp add: normalize_text_Nil lower_def)
      then have "re_search (heading_pattern heading) low = None"
        using heading_no_match_empty[of heading] by (simp add: re_search_None)
      then show False using m by simp
    qed
    then show ?thesis
      using m assms(3,4) len
      by (simp add: extract_section_by_heading_def Let_def stop_loop_min body_end_def)
  qed
  have none: "extract_section_by_heading text heading stop_headings = None"
    if "re_search ?H low = None"
    using that assms(3,4) by (simp add: extract_section_by_heading_def Let_def)
  have p1: "extract_section_by_heading text heading stop_headings = None \<longleftrightarrow>
        (\<forall>i \<le> length low. \<not> matches_at ?H low i)
        \<or> (\<exists>m. re_search ?H low = Some m
              \<and> strip (slice norm (m_end m) (body_end stop_headings low (m_end m))) = [])"
  proof (cases "re_search ?H low")
    case None
    then show ?thesis using none by (simp add: re_search_None)
  next
    case (Some m)
    then have "\<not> (\<forall>i \<le> length low. \<not> matches_at ?H low i)"
      by (simp add: re_search_None[symmetric])
    then show ?thesis using some[OF Some] Some by (simp add: Let_def)
  qed
  have p2: "\<forall>m. re_search ?H low = Some m \<longrightarrow>
          (m_start m = 0 \<or> low ! (m_start m - 1) = LF)
          \<and> matches_at ?H low (m_start m)
          \<and> (\<forall>j < m_start m. \<not> matches_at ?H low j)
          \<and> extract_section_by_heading text heading stop_headings =
              (let body = strip (slice norm (m_end m) (body_end stop_headings low (m_end m)))
               in if body = [] then None else Some body)"
  proof (intro allI impI)
    fix m assume m: "re_search ?H low = Some m"
    from re_search_Some[OF m]
    have a: "match_at ?H low (m_start m) = Some m"
      and c: "\<forall>j < m_start m. \<not> matches_at ?H low j" by auto
    have b: "matches_at ?H low (m_start m)"
      using a match_at_None[of ?H low "m_start m"] by simp
    have d: "m_start m = 0 \<or> low ! (m_start m - 1) = LF"
      using heading_match_line_start[OF b] by blast
    show "(m_start m = 0 \<or> low ! (m_start m - 1) = LF)
          \<and> matches_at ?H low (m_start m)
          \<and> (\<forall>j < m_start m. \<not> matches_at ?H low j)
          \<and> extract_section_by_heading text heading stop_headings =
              (let body = strip (slice norm (m_end m) (body_end stop_headings low (m_end m)))
               in if body = [] then None else Some body)"
      using b c d some[OF m] by blast
  qed
  have p3: "\<forall>start \<le> length low. body_end stop_headings low start =
            (if stop_offsets stop_headings low start = [] then length norm
             else Min (set (stop_offsets stop_headings low start)))
          \<and> (\<forall>i kw. kw \<in> set stop_headings \<and> i \<le> length low - start
                \<and> matches_at (stop_pattern kw) (drop start low) i
                \<longrightarrow> body_end stop_headings low start \<le> start + i)"
  proof (intro allI conjI impI)
    fix start assume "start \<le> length low"
    then have bound: "\<forall>x \<in> set (stop_offsets stop_headings low start). x \<le> length low"
      by (auto simp: stop_offsets_def simp del: upt_Suc)
    show "body_end stop_headings low start =
            (if stop_offsets stop_headings low start = [] then length norm
             else Min (set (stop_offsets stop_headings low start)))"
    proof (cases "stop_offsets stop_headings low start = []")
      case True
      then show ?thesis by (simp add: body_end_def len)
    next
      case False
      let ?S = "set (stop_offsets stop_headings low start)"
      have ne: "?S \<noteq> {}" using False by simp
      have le: "Min ?S \<le> length low" using bound ne by (auto simp: Min_le_iff)
      have "Min (insert (length low) ?S) = min (length low) (Min ?S)"
        by (rule Min_insert) (use ne in auto)
      then have "body_end stop_headings low start = Min ?S"
        using le by (simp only: body_end_def min_absorb2)
      then show ?thesis using False by simp
    qed
  next
    fix start i kw
    assume "start \<le> length low"
    assume h: "kw \<in> set stop_headings \<and> i \<le> length low - start
                \<and> matches_at (stop_pattern kw) (drop start low) i"
    then have "start + i \<in> set (stop_offsets stop_headings low start)"
      by (auto simp: stop_offsets_def less_Suc_eq_le simp del: upt_Suc)
    then show "body_end stop_headings low start \<le> start + i"
      by (simp add: body_end_def)
  qed
  show ?thesis by (rule conjI[OF p1 conjI[OF p2 p3]])
qed

theorem section_segmenter_witness:
  "plain_name ''findings'' \<and> plain_name ''impression'' \<and> plain_name ''conclusion''
   \<and> re_search (heading_pattern ''findings'') (lower (normalize_text doc_inline)) =
       Some \<lparr>m_start = 0, m_end = 9, m_group1 = None\<rparr>
   \<and> body_end [''impression'', ''conclusion''] (lower (normalize_text doc_inline)) 9 = 28
   \<and> extract_section_by_heading doc_inline ''findings'' [''impression'', ''conclusion'']
       = Some ''mild edema noted.''"
proof -
  have h1: "plain_name ''findings''" by code_simp
  have h3: "plain_name ''impression'' \<and> plain_name ''conclusion''" by code_simp
  then have h2: "\<forall>kw \<in> set [''impression'', ''conclusion'']. plain_name kw" by simp
  have m: "re_search (heading_pattern ''findings'') (lower (normalize_text doc_inline)) =
       Some \<lparr>m_start = 0, m_end = 9, m_group1 = None\<rparr>" by code_simp
  have e: "body_end [''impression'', ''conclusion''] (lower (normalize_text doc_inline)) 9 = 28"
    by code_simp
  have b: "strip (slice (normalize_text doc_inline) 9 28) = ''mild edema noted.''"
    by code_simp
  have "extract_section_by_heading doc_inline ''findings'' [''impression'', ''conclusion'']
       = Some ''mild edema noted.''"
    using section_segmenter[OF h1 h2 refl refl lower_length, of doc_inline, THEN conjunct2,
        THEN conjunct1,
        THEN spec, THEN mp, OF m]
    by (simp add: e b Let_def)
  then show ?thesis using h1 h3 m e by blast
qed

section \<open>The text that is classified\<close>

lemma extract_section_nonempty:
  "extract_section_by_heading t h st = Some b \<Longrightarrow> b \<noteq> []"
  by (auto simp: extract_section_by_heading_def Let_def split: if_splits option.splits)

text \<open>
  Claim C2, as amended. When neither section is found, the text handed to the
  classification step is the document text as it was loaded, not passed through
  \<open>normalize_text\<close>, with the source label \<^verbatim>\<open>full_report\<close>. A findings section is
  chosen before an impression section, and an impression section before the full text.
\<close>

theorem section_for_priority:
  "(extract_findings_section t = None \<and> extract_impression_section t = None
      \<longrightarrow> section_for t = (t, ''full_report''))
   \<and> (\<forall>f. extract_findings_section t = Some f \<longrightarrow> section_for t = (f, ''findings''))
   \<and> (\<forall>i. extract_findings_section t = None \<and> extract_impression_section t = Some i
      \<longrightarrow> section_for t = (i, ''impression''))"
  using extract_section_nonempty[of t "''findings''"]
        extract_section_nonempty[of t "''impression''"]
  by (auto simp: section_for_def select_section_def truthy_def text_of_def
      extract_findings_section_def extract_impression_section_def)

theorem section_for_priority_witness:
  "section_for doc_no_heading = (doc_no_heading, ''full_report'')
   \<and> section_for doc_normal = (''no acute abnormality.'', ''findings'')
   \<and> section_for doc_impression = (''stable.'', ''impression'')"
proof -
  have n: "extract_findings_section doc_no_heading = None
           \<and> extract_impression_section doc_no_heading = None"
    by code_simp
  have f: "extract_findings_section doc_normal = Some ''no acute abnormality.''"
    by code_simp
  have i: "extract_findings_section doc_impression = None
           \<and> extract_impression_section doc_impression = Some ''stable.''"
    by code_simp
  show ?thesis
    using section_for_priority[of doc_no_heading] section_for_priority[of doc_normal]
      section_for_priority[of doc_impression] n f i
    by blast
qed

text \<open>
  The text of the full report is not the normalized text: a carriage return in the
  document reaches the classification step.
\<close>

theorem full_report_not_normalized_counterexample:
  "extract_findings_section [CHR ''a'', CR, CHR ''b''] = None
   \<and> extract_impression_section [CHR ''a'', CR, CHR ''b''] = None
   \<and> fst (section_for [CHR ''a'', CR, CHR ''b'']) \<noteq> normalize_text [CHR ''a'', CR, CHR ''b'']"
  by code_simp

section \<open>Code fences\<close>

lemma space_not_letter: "is_space c \<Longrightarrow> \<not> is_ascii_letter c"
  by (auto simp: is_space_def is_ascii_letter_def Let_def)

lemma BT_not_space: "\<not> is_space BT"
  by (simp add: is_space_def BT_def cp_def)

lemma fence_removed:
  assumes "\<forall>c \<in> set tag. is_ascii_letter c" "rest \<noteq> []" "\<not> is_ascii_letter (hd rest)"
  shows "re_sub_prefix fence ([BT, BT, BT] @ tag @ rest) = rest"
proof -
  define R where "R = [BT, BT, BT] @ tag @ rest"
  have tw: "takeWhile is_ascii_letter (tag @ rest) = tag"
    using assms by (cases rest) (auto simp: takeWhile_append2)
  have "cmatch AsciiLetter = is_ascii_letter" by (rule ext) simp
  then have run: "run AsciiLetter R 3 = length tag"
    using tw by (simp add: run_def R_def)
  have l3: "ends (lits [BT, BT, BT]) R (0, g) = [(3, g)]" for g
    by (simp add: lits_def seq_def R_def)
  define Y where "Y = Cat (Rep AsciiLetter 0) Eps"
  define X where "X = Cat (lits [BT, BT, BT]) Y"
  have f: "fence = Cat Bos X"
    by (simp add: fence_def seq_Cons seq_Nil X_def Y_def)
  have e1: "ends Y R (3, None) = map (\<lambda>k. (3 + k, None)) (rev [0 ..< length tag + 1])"
    unfolding Y_def ends_Cat_Eps by (simp add: run del: upt_Suc)
  have e2: "ends X R (0, None) = map (\<lambda>k. (3 + k, None)) (rev [0 ..< length tag + 1])"
    unfolding X_def by (simp add: l3 e1 del: upt_Suc)
  have "ends fence R (0, None) = map (\<lambda>k. (3 + k, None)) (rev [0 ..< length tag + 1])"
    unfolding f by (simp add: e2 del: upt_Suc)
  then have "ends fence R (0, None) =
     (3 + length tag, None) # map (\<lambda>k. (3 + k, None)) (rev [0 ..< length tag])"
    by simp
  then have "re_sub_prefix fence R = drop (3 + length tag) R"
    by (simp add: re_sub_prefix_def match_at_def)
  then show ?thesis by (simp add: R_def numeral_3_eq_3)
qed

lemma strip_fences_fenced:
  assumes tag: "\<forall>c \<in> set tag. is_ascii_letter c"
    and ws1: "ws1 \<noteq> []" "\<forall>c \<in> set ws1. is_space c"
    and ws2: "\<forall>c \<in> set ws2. is_space c"
    and body: "body \<noteq> []" "\<not> is_space (hd body)" "\<not> is_space (last body)"
  shows "strip_fences ([BT, BT, BT] @ tag @ ws1 @ body @ ws2 @ [BT, BT, BT]) = body"
proof -
  let ?rest = "ws1 @ body @ ws2 @ [BT, BT, BT]"
  have sw: "startswith ([BT, BT, BT] @ tag @ ?rest) [BT, BT, BT]"
    by (simp add: startswith_def)
  have "\<not> is_ascii_letter (hd ?rest)"
    using ws1 by (cases ws1) (auto simp: space_not_letter)
  then have sub: "re_sub_prefix fence ([BT, BT, BT] @ tag @ ?rest) = ?rest"
    using fence_removed[OF tag, of ?rest] ws1 by simp
  have "body @ ws2 @ [BT, BT, BT] \<noteq> []" "\<not> is_space (hd (body @ ws2 @ [BT, BT, BT]))"
    "\<not> is_space (last (body @ ws2 @ [BT, BT, BT]))"
    using body BT_not_space by (auto simp: hd_append)
  from strip_spaces_around[OF this, of ws1 "[]"] ws1
  have s1: "strip ?rest = body @ ws2 @ [BT, BT, BT]" by simp
  have ew: "endswith (body @ ws2 @ [BT, BT, BT]) [BT, BT, BT]"
    by (simp add: endswith_def)
  have tk: "take (length (body @ ws2 @ [BT, BT, BT]) - 3) (body @ ws2 @ [BT, BT, BT]) = body @ ws2"
    by simp
  have s2: "strip (body @ ws2) = body"
    using strip_spaces_around[OF body, of "[]" ws2] ws2 by simp
  show ?thesis
    unfolding strip_fences_def
    by (simp only: sw sub s1 ew tk s2 Let_def if_True)
qed

text \<open>
  A response that is a code fence with an optional language tag around a text that
  \<^verbatim>\<open>json.loads\<close> decodes: the fence is stripped and the decoded value is returned as it
  is, so that its fields are those of the response and no others.
\<close>

lemma fenced_record_returned:
  assumes "\<forall>c \<in> set tag. is_ascii_letter c"
    and "ws1 \<noteq> []" "\<forall>c \<in> set ws1. is_space c" "\<forall>c \<in> set ws2. is_space c"
    and "\<forall>c \<in> set pad1. is_space c" "\<forall>c \<in> set pad2. is_space c"
    and "body \<noteq> []" "\<not> is_space (hd body)" "\<not> is_space (last body)"
    and "json_loads body = Some data"
  shows "structured_from_output
           (pad1 @ ([BT, BT, BT] @ tag @ ws1 @ body @ ws2 @ [BT, BT, BT]) @ pad2) st = data"
proof -
  let ?R = "[BT, BT, BT] @ tag @ ws1 @ body @ ws2 @ [BT, BT, BT]"
  have "?R \<noteq> []" "\<not> is_space (hd ?R)" "\<not> is_space (last ?R)"
    using BT_not_space by auto
  from strip_spaces_around[OF this assms(5,6)]
  have "strip (pad1 @ ?R @ pad2) = ?R" .
  then show ?thesis
    using strip_fences_fenced[OF assms(1-4) assms(7-9)] assms(10)
    by (simp only: structured_from_output_def Let_def option.case)
qed


section \<open>The fallback record\<close>

text \<open>
  Claim C4, as amended. When \<^verbatim>\<open>json.loads\<close> raises \<^verbatim>\<open>JSONDecodeError\<close> on the trimmed
  response without its code fence, the result is exactly the fallback record: the first
  300 characters of the section text, followed by \<^verbatim>\<open>...\<close> if and only if the section text
  is longer, the label \<^verbatim>\<open>uncertain\<close>, the score 3, and under the key \<^verbatim>\<open>raw_llm_output\<close>
  the text that could not be decoded.
\<close>

theorem fallback_on_decode_error:
  "json_loads (strip_fences (strip output_text)) = None \<Longrightarrow>
     structured_from_output output_text st =
       JObj [(ustr ''summary'',
                JStr (ustr (take 300 st @ (if length st > 300 then ''...'' else [])))),
             (ustr ''severity_label'', JStr (ustr ''uncertain'')),
             (ustr ''severity_score'', JInt 3),
             (ustr ''raw_llm_output'', JStr (ustr (strip_fences (strip output_text))))]"
  by (simp add: structured_from_output_def fallback_def)

theorem fallback_on_decode_error_witness:
  "json_loads (strip_fences (strip ''not json at all'')) = None
   \<and> structured_from_output ''not json at all'' ''abc'' =
       JObj [(ustr ''summary'', JStr (ustr ''abc'')),
             (ustr ''severity_label'', JStr (ustr ''uncertain'')),
             (ustr ''severity_score'', JInt 3),
             (ustr ''raw_llm_output'', JStr (ustr ''not json at all''))]"
proof -
  have h: "json_loads (strip_fences (strip ''not json at all'')) = None" by code_simp
  have s: "strip_fences (strip ''not json at all'') = ''not json at all''" by code_simp
  show ?thesis using fallback_on_decode_error[OF h, of "''abc''"] h s by simp
qed

text \<open>
  The record has no field \<^verbatim>\<open>raw_output\<close>: on the garbage input of the specification the
  result differs from the record that the specification describes.
\<close>

theorem fallback_raw_output_counterexample:
  "structured_from_output ''not json at all'' ''abc'' \<noteq> spec_fallback ''abc'' ''not json at all''
   \<and> dict_get (structured_from_output ''not json at all'' ''abc'') (ustr ''raw_output'') JNull
       = Inr JNull"
  by code_simp

section \<open>A response that is valid JSON but no object\<close>

text \<open>
  Claim C6. The response \<^verbatim>\<open>42\<close> is decoded to the integer 42 and returned as it is,
  where the function is declared to return a dict; \<^verbatim>\<open>structured.get\<close> then raises
  \<^verbatim>\<open>AttributeError\<close> outside of any \<^verbatim>\<open>try\<close>, and the exception ends the run.
\<close>

theorem non_object_response_raises:
  "structured_from_output ''42'' ''text'' = JInt 42
   \<and> make_row ''a.pdf'' ''Unknown'' (JInt 42) = Inl AttributeError
   \<and> run_aggregation (env_one ''42'') = Raised AttributeError"
  by code_simp

section \<open>The severity fields of a record\<close>

lemma make_row_fallback:
  "make_row b n (fallback st raw) =
     Inr \<lparr>row_file = b, row_patient_name = n,
          row_summary = ustrip (ustr (take 300 st @ (if length st > 300 then ''...'' else []))),
          row_severity_label = JStr (ustr ''uncertain''), row_severity_score = JInt 3\<rparr>"
  by (simp add: make_row_def fallback_def dict_get_def str_strip_def ustr_def cp_def)

lemma make_row_object:
  "make_row b n (JObj d) = Inr row \<Longrightarrow>
     row_severity_label row =
        (case map_of d (ustr ''severity_label'') of Some v \<Rightarrow> v | None \<Rightarrow> JStr (ustr ''uncertain''))
     \<and> row_severity_score row =
        (case map_of d (ustr ''severity_score'') of Some v \<Rightarrow> v | None \<Rightarrow> JInt 3)"
  by (auto simp: make_row_def dict_get_def split: sum.splits)

text \<open>
  Claim C3, as amended. When the response cannot be decoded, the record has the label
  \<^verbatim>\<open>uncertain\<close> and the score 3, both in their domains. When the response decodes to an
  object and a record is built, the label and the score are those of the object, whatever
  they are, and \<^verbatim>\<open>uncertain\<close> and 3 stand in for a missing key.
\<close>

theorem severity_fields:
  "(json_loads (strip_fences (strip output_text)) = None \<longrightarrow>
      (\<exists>row. make_row b n (structured_from_output output_text st) = Inr row
         \<and> row_severity_label row = JStr (ustr ''uncertain'')
         \<and> row_severity_score row = JInt 3
         \<and> valid_label (row_severity_label row) \<and> valid_score (row_severity_score row)))
   \<and> (\<forall>d row. json_loads (strip_fences (strip output_text)) = Some (JObj d)
         \<and> make_row b n (structured_from_output output_text st) = Inr row \<longrightarrow>
       row_severity_label row =
         (case map_of d (ustr ''severity_label'') of Some v \<Rightarrow> v
          | None \<Rightarrow> JStr (ustr ''uncertain''))
       \<and> row_severity_score row =
         (case map_of d (ustr ''severity_score'') of Some v \<Rightarrow> v | None \<Rightarrow> JInt 3))"
proof -
  have p1: "json_loads (strip_fences (strip output_text)) = None \<longrightarrow>
      (\<exists>row. make_row b n (structured_from_output output_text st) = Inr row
         \<and> row_severity_label row = JStr (ustr ''uncertain'')
         \<and> row_severity_score row = JInt 3
         \<and> valid_label (row_severity_label row) \<and> valid_score (row_severity_score row))"
    by (simp add: structured_from_output_def make_row_fallback valid_label_def valid_score_def)
  have p2: "\<forall>d row. json_loads (strip_fences (strip output_text)) = Some (JObj d)
         \<and> make_row b n (structured_from_output output_text st) = Inr row \<longrightarrow>
       row_severity_label row =
         (case map_of d (ustr ''severity_label'') of Some v \<Rightarrow> v
          | None \<Rightarrow> JStr (ustr ''uncertain''))
       \<and> row_severity_score row =
         (case map_of d (ustr ''severity_score'') of Some v \<Rightarrow> v | None \<Rightarrow> JInt 3)"
    using make_row_object by (auto simp: structured_from_output_def)
  show ?thesis by (rule conjI[OF p1 p2])
qed

theorem severity_fields_witness:
  "json_loads (strip_fences (strip ''not json at all'')) = None
   \<and> json_loads (strip_fences (strip resp_out_of_domain)) =
       Some (JObj [(ustr ''summary'', JStr (ustr ''x'')),
                   (ustr ''severity_label'', JStr (ustr ''catastrophic'')),
                   (ustr ''severity_score'', JInt 99)])
   \<and> (\<exists>row. make_row ''a.pdf'' ''Unknown'' (structured_from_output ''not json at all'' ''text'')
               = Inr row
         \<and> row_severity_label row = JStr (ustr ''uncertain'')
         \<and> row_severity_score row = JInt 3)"
proof -
  have h1: "json_loads (strip_fences (strip ''not json at all'')) = None" by code_simp
  have h2: "json_loads (strip_fences (strip resp_out_of_domain)) =
       Some (JObj [(ustr ''summary'', JStr (ustr ''x'')),
                   (ustr ''severity_label'', JStr (ustr ''catastrophic'')),
                   (ustr ''severity_score'', JInt 99)])" by code_simp
  show ?thesis
    using severity_fields[of "''not json at all''" "''a.pdf''" "''Unknown''" "''text''"] h1 h2
    by blast
qed

text \<open>
  A well-formed response with a label and a score outside of the domains is passed on as
  it is.
\<close>

theorem severity_not_validated_counterexample:
  "make_row ''a.pdf'' ''Unknown'' (structured_from_output resp_out_of_domain ''text'') =
     Inr \<lparr>row_file = ''a.pdf'', row_patient_name = ''Unknown'', row_summary = ustr ''x'',
          row_severity_label = JStr (ustr ''catastrophic''), row_severity_score = JInt 99\<rparr>
   \<and> \<not> valid_label (JStr (ustr ''catastrophic'')) \<and> \<not> valid_score (JInt 99)"
  by code_simp

section \<open>The exported files\<close>








section \<open>Runs without records\<close>

text \<open>
  The two files are written only by a run that has at least one record, and a run that
  finds no PDF file shows that information and returns. A run whose loop ends without a
  record returns after its message; an exception leaves the run exactly when it leaves the
  loop.
\<close>

lemma export_needs_a_record:
  "export_invoked (run_aggregation e) \<Longrightarrow>
     pdf_files e \<noteq> []
     \<and> (\<exists>cl rows. client e = Some cl \<and> process_all e cl (pdf_files e) [] = Inr rows
            \<and> rows \<noteq> [])"
  by (auto simp: run_aggregation_def export_invoked_def split: option.splits if_splits sum.splits)

lemma no_pdf_files:
  "client e \<noteq> None \<Longrightarrow> input_isdir e \<Longrightarrow> output_isdir e \<Longrightarrow> pdf_files e = [] \<Longrightarrow>
     run_aggregation e = ShowInfo ''No PDF files found in the selected folder.''"
  by (auto simp: run_aggregation_def split: option.splits)

lemma loop_without_record:
  "client e = Some cl \<Longrightarrow> input_isdir e \<Longrightarrow> output_isdir e \<Longrightarrow> pdf_files e \<noteq> [] \<Longrightarrow>
     process_all e cl (pdf_files e) [] = Inr [] \<Longrightarrow> run_aggregation e = NoValidSummaries"
  by (simp add: run_aggregation_def)

lemma run_raises:
  "run_aggregation e = Raised x \<longleftrightarrow>
     (\<exists>cl. client e = Some cl \<and> input_isdir e \<and> output_isdir e \<and> pdf_files e \<noteq> []
           \<and> process_all e cl (pdf_files e) [] = Inl x)"
  by (auto simp: run_aggregation_def export_def split: option.splits if_splits sum.splits)

text \<open>
  Claim C9. A run over one PDF file whose response is \<^verbatim>\<open>42\<close> produces no record: the
  document gives no row and the two files are not written. The run does not end with the
  information that no report gave a valid summary: \<^verbatim>\<open>AttributeError\<close> leaves it, raised at
  line 384 as for claim C6.
\<close>

theorem zero_records_run_raises:
  "pdf_files (env_one ''42'') = [''a.pdf'']
   \<and> row_of (env_one ''42'') (\<lambda>source_label section_text. Some ''42'') ''a.pdf'' = None
   \<and> \<not> export_invoked (run_aggregation (env_one ''42''))
   \<and> run_aggregation (env_one ''42'') = Raised AttributeError"
proof -
  let ?cl = "\<lambda>source_label section_text. Some ''42''"
  have p: "pdf_files (env_one ''42'') = [''a.pdf'']" by code_simp
  have t: "process_pdf (env_one ''42'') ?cl ''a.pdf'' = Uncaught AttributeError" by code_simp
  have c: "client (env_one ''42'') = Some ?cl" "input_isdir (env_one ''42'')"
    "output_isdir (env_one ''42'')"
    by (simp_all add: env_one_def)
  have r: "run_aggregation (env_one ''42'') = Raised AttributeError"
    by (simp add: run_aggregation_def c p t)
  have n: "row_of (env_one ''42'') ?cl ''a.pdf'' = None"
    by (simp add: row_of_def t)
  have x: "\<not> export_invoked (run_aggregation (env_one ''42''))"
    by (simp add: r export_invoked_def)
  show ?thesis using p n x r by blast
qed

end
